theory Spec2Isabelle
  imports
    Complex_Main
    "HOL-Library.Multiset"
    "HOL-Library.Char_ord"
    "HOL-Library.List_Lexorder"
    "HOL-Library.Product_Lexorder"
    "HOL-Library.Option_ord"
begin

section \<open>render.py: a shallow embedding\<close>

text \<open>
  The script \<^verbatim>\<open>src/example/render.py\<close> renders source files as one PDF. Its own logic is
  the resolution of the inputs (lines 101--145), the prompts (164--186), the fetcher
  \<^verbatim>\<open>get\<close>, the renderer \<^verbatim>\<open>render\<close>, the compositor \<^verbatim>\<open>concatenate\<close> and the writer
  \<^verbatim>\<open>write\<close>. Everything else is library code (glob, braceexpand, natsort, requests,
  pygments, WeasyPrint, PyPDF2); what the script needs of it is either passed in through
  the record \<open>env\<close> or, where a claim depends on what the library computes, written out
  as a definition of its own with the library named.

  Conventions. Python \<^verbatim>\<open>str\<close> and \<^verbatim>\<open>bytes\<close> are both \<open>string\<close>; characters beyond ASCII
  are not interpreted. An exception is a value of type \<open>exn\<close>, and a function that can
  raise returns \<open>exn + 'a\<close> with \<open>Inl\<close> the exception. Progress messages printed with
  \<^verbatim>\<open>cprint\<close> are not modelled; the prompts of \<^verbatim>\<open>input\<close> are.
\<close>

subsection \<open>Exceptions\<close>

datatype exn =
    RuntimeError string
  | SystemExit nat
  | FileNotFoundError
  | PermissionError
  | IsADirectoryError
  | NotADirectoryError
  | OSError
  | RequestException
  | EOFError
  | IndexError
  | ValueError
  | UnboundLocalError
  | URLFetchingError
  | PdfReadError

subsection \<open>Strings\<close>

text \<open>\<^verbatim>\<open>s.startswith(p)\<close>, and \<^verbatim>\<open>s.startswith((p1, p2))\<close> with a tuple of prefixes.\<close>

definition startswith :: "string \<Rightarrow> string \<Rightarrow> bool" where
  "startswith s p = (take (length p) s = p)"

definition startswith_any :: "string \<Rightarrow> string list \<Rightarrow> bool" where
  "startswith_any s ps = list_ex (startswith s) ps"

text \<open>\<^verbatim>\<open>s.lower()\<close> on ASCII.\<close>

definition lower_char :: "char \<Rightarrow> char" where
  "lower_char c =
     (let n = (of_char c :: nat)
      in if 65 \<le> n \<and> n \<le> 90 then char_of (n + 32) else c)"

definition lower :: "string \<Rightarrow> string" where
  "lower s = map lower_char s"

subsection \<open>Documents and pages (WeasyPrint)\<close>

text \<open>
  A rendered page has a width, a height, its content, and bookmarks; a document is its
  list of pages. Lengths are in PDF points throughout (WeasyPrint counts pixels of 3/4
  point; the constant factor is left out).
\<close>

record page =
  width :: real
  height :: real
  content :: string
  bookmarks :: "(nat \<times> string \<times> (nat \<times> nat) \<times> string) list"

datatype document = Document (pages: "page list")

subsection \<open>The environment\<close>

text \<open>
  What the script reads from the outside world:
  \<^item> \<open>braceexpand\<close>: \<^verbatim>\<open>list(braceexpand(pattern))\<close>;
  \<^item> \<open>glob\<close>: \<^verbatim>\<open>glob(expression, recursive=True)\<close>, in the order the filesystem returns;
  \<^item> \<open>isfile\<close>, \<open>isdir\<close>: \<^verbatim>\<open>os.path.isfile\<close>, \<^verbatim>\<open>os.path.isdir\<close>;
  \<^item> \<open>walk\<close>: the triples \<^verbatim>\<open>(dirpath, dirnames, filenames)\<close> of \<^verbatim>\<open>os.walk(path)\<close>;
  \<^item> \<open>read_bytes\<close>: \<^verbatim>\<open>open(file, "rb")\<close> followed by \<^verbatim>\<open>f.read()\<close>, with the exception
    the operating system raises, if any;
  \<^item> \<open>decode\<close>: \<^verbatim>\<open>bytes.decode("utf-8", "ignore")\<close>, which drops undecodable bytes and
    raises nothing;
  \<^item> \<open>raw_url\<close>: the two \<^verbatim>\<open>re.search\<close> rewrites of GitHub and Gist URLs in \<^verbatim>\<open>get\<close>;
  \<^item> \<open>http_get\<close>: \<^verbatim>\<open>requests.get\<close>, giving the status code and the text, or raising;
  \<^item> \<open>highlight_pages\<close>: the pages WeasyPrint lays out for the highlighted code, from the
    file name, the code, the colour flag, the title, the font size, the margin and the
    page size (lines 474--501: the choice of the lexer, \<^verbatim>\<open>highlight\<close>, the style sheets
    and \<^verbatim>\<open>HTML(...).render\<close>);
  \<^item> \<open>browser_pages\<close>: the pages WeasyPrint lays out for a web page, from the file name,
    the fetched text, the flag for relative links, the font size, the margin and the
    page size (lines 441--451), or the exception raised on the way.
\<close>

record env =
  braceexpand :: "string \<Rightarrow> string list"
  glob :: "string \<Rightarrow> string list"
  isfile :: "string \<Rightarrow> bool"
  isdir :: "string \<Rightarrow> bool"
  walk :: "string \<Rightarrow> (string \<times> string list \<times> string list) list"
  read_bytes :: "string \<Rightarrow> exn + string"
  decode :: "string \<Rightarrow> string"
  raw_url :: "string \<Rightarrow> string"
  http_get :: "string \<Rightarrow> exn + nat \<times> string"
  highlight_pages ::
    "string \<Rightarrow> string \<Rightarrow> bool \<Rightarrow> string \<Rightarrow> string \<Rightarrow> string \<Rightarrow> string \<Rightarrow> page list"
  browser_pages ::
    "string \<Rightarrow> string \<Rightarrow> bool \<Rightarrow> string \<Rightarrow> string \<Rightarrow> string \<Rightarrow> exn + page list"

subsection \<open>The fetcher (\<^verbatim>\<open>get\<close>, lines 370--404)\<close>

text \<open>
  The URL branch returns the text of a 200 response and raises \<^verbatim>\<open>RuntimeError\<close> on any
  other status; an exception of \<^verbatim>\<open>requests.get\<close> itself is not caught here. The local
  branch catches every exception of opening, reading and decoding, and tells
  \<^verbatim>\<open>FileNotFoundError\<close> (by exact type) from the rest.
\<close>

definition get :: "env \<Rightarrow> string \<Rightarrow> exn + string" where
  "get e file =
     (if startswith_any file [''http'', ''https''] then
        (let file' = raw_url e file
         in case http_get e file' of
              Inl x \<Rightarrow> Inl x
            | Inr (status_code, text) \<Rightarrow>
                if status_code = 200 then Inr text
                else Inl (RuntimeError (''Could not GET '' @ file' @ ''.'')))
      else
        (case read_bytes e file of
           Inr bs \<Rightarrow> Inr (decode e bs)
         | Inl x \<Rightarrow>
             if x = FileNotFoundError
             then Inl (RuntimeError (''Could not find '' @ file @ ''.''))
             else Inl (RuntimeError (''Could not read '' @ file @ ''.''))))"

subsection \<open>The overwrite prompt (lines 164--173)\<close>

text \<open>
  The terminal: the lines the user is still going to type, and the prompts shown so far.
  \<^verbatim>\<open>input(prompt)\<close> shows the prompt and takes the next line; at the end of the input
  it raises \<^verbatim>\<open>EOFError\<close>.
\<close>

record tty =
  pending :: "string list"
  shown :: "string list"

text \<open>
  The \<^verbatim>\<open>while True\<close> loop of lines 168--173: one line is taken per round, \<^verbatim>\<open>y\<close>/\<^verbatim>\<open>yes\<close>
  leaves the loop, \<^verbatim>\<open>n\<close>/\<^verbatim>\<open>no\<close> calls \<^verbatim>\<open>cancel()\<close> (exit code 0), anything else asks again.
\<close>

fun ask_overwrite :: "string \<Rightarrow> string list \<Rightarrow> string list \<Rightarrow> (exn + unit) \<times> tty" where
  "ask_overwrite output [] sh =
     (Inl EOFError, \<lparr>pending = [], shown = sh @ [''Overwrite '' @ output @ ''? '']\<rparr>)"
| "ask_overwrite output (s # rest) sh =
     (let sh' = sh @ [''Overwrite '' @ output @ ''? '']
      in if lower s \<in> set [''y'', ''yes''] then (Inr (), \<lparr>pending = rest, shown = sh'\<rparr>)
         else if lower s \<in> set [''n'', ''no''] then (Inl (SystemExit 0), \<lparr>pending = rest, shown = sh'\<rparr>)
         else ask_overwrite output rest sh')"

text \<open>
  Lines 165--173. \<open>force\<close> is \<^verbatim>\<open>args.force\<close>, \<open>INPUT\<close> is \<^verbatim>\<open>args.INPUT\<close> (empty when the
  inputs were read from standard input), \<open>exists\<close> is \<^verbatim>\<open>os.path.exists(output)\<close>.
  \<open>Inr ()\<close> means that the run goes on to the next step.
\<close>

definition confirm_overwrite ::
  "bool \<Rightarrow> string list \<Rightarrow> bool \<Rightarrow> string \<Rightarrow> tty \<Rightarrow> (exn + unit) \<times> tty" where
  "confirm_overwrite force INPUT exists output t =
     (if \<not> force \<and> exists then
        (if INPUT = [] then (Inl (RuntimeError ''Output exists.''), t)
         else ask_overwrite output (pending t) (shown t))
      else (Inr (), t))"

subsection \<open>Include and exclude patterns (lines 89--99)\<close>

definition backslash :: char where
  "backslash = CHR 0x5C"

definition newline :: char where
  "newline = CHR 0x0A"

text \<open>
  \<^verbatim>\<open>re.escape\<close> (Python 3.7 and later) puts a backslash before each of the characters
  \<^verbatim>\<open>()[]{}?*+-|^$\.&~#\<close>, the blank, and the control characters tab, newline, carriage
  return, vertical tab and form feed; every other character is left as it is.
\<close>

definition special_chars :: "char list" where
  "special_chars =
     ''()[]{}?*+-|^$.&~# '' @ [backslash, CHR 0x09, newline, CHR 0x0D, CHR 0x0B, CHR 0x0C]"

definition re_escape :: "string \<Rightarrow> string" where
  "re_escape s = concat (map (\<lambda>c. if c \<in> set special_chars then [backslash, c] else [c]) s)"

text \<open>
  \<^verbatim>\<open>s.replace(old, new)\<close> for a non-empty \<open>old\<close>: the occurrences are replaced from the
  left, without overlap. (For an empty \<open>old\<close> Python inserts \<open>new\<close> around every
  character; the script never does that and the model returns \<open>s\<close>.)
\<close>

function replace :: "string \<Rightarrow> string \<Rightarrow> string \<Rightarrow> string" where
  "replace old new [] = []"
| "replace old new (c # cs) =
     (if old \<noteq> [] \<and> startswith (c # cs) old
      then new @ replace old new (drop (length old) (c # cs))
      else c # replace old new cs)"
  by pat_completeness auto
termination
  by (relation "measure (\<lambda>(old, new, s). length s)") auto

text \<open>Lines 92--93 and 98--99: \<^verbatim>\<open>re.escape(i).replace("\*", ".*")\<close>.\<close>

definition pattern_regex :: "string \<Rightarrow> string" where
  "pattern_regex i = replace [backslash, CHR ''*''] ''.*'' (re_escape i)"

text \<open>\<^verbatim>\<open>sep.join(xs)\<close>.\<close>

fun join_str :: "string \<Rightarrow> string list \<Rightarrow> string" where
  "join_str sep [] = []"
| "join_str sep [x] = x"
| "join_str sep (x # y # ys) = x @ sep @ join_str sep (y # ys)"

subsection \<open>The regular expressions the script builds\<close>

text \<open>
  The strings handed to \<^verbatim>\<open>re.search\<close> in lines 137 and 141 are made of escaped
  characters, unescaped ordinary characters, \<^verbatim>\<open>.*\<close>, \<^verbatim>\<open>|\<close>, \<^verbatim>\<open>^\<close> and \<^verbatim>\<open>$\<close>. \<open>re_parse\<close>
  reads such a string the way Python's \<^verbatim>\<open>re\<close> does: \<^verbatim>\<open>|\<close> binds weakest, so the string is
  a list of alternatives, each a sequence of tokens, and \<^verbatim>\<open>^\<close> and \<^verbatim>\<open>$\<close> belong to the
  alternative they stand in. Anything else is outside this fragment (\<open>None\<close>).
\<close>

datatype tok = Lit char | AnyStar | Bol | Eol

fun push_tok :: "tok \<Rightarrow> tok list list \<Rightarrow> tok list list" where
  "push_tok t [] = [[t]]"
| "push_tok t (a # alts) = (t # a) # alts"

fun re_parse :: "string \<Rightarrow> tok list list option" where
  "re_parse [] = Some [[]]"
| "re_parse (c # cs) =
     (if c = backslash then
        (case cs of
           [] \<Rightarrow> None
         | d # ds \<Rightarrow>
             if d \<in> set special_chars then map_option (push_tok (Lit d)) (re_parse ds) else None)
      else if c = CHR ''.'' then
        (case cs of
           [] \<Rightarrow> None
         | d # ds \<Rightarrow> if d = CHR ''*'' then map_option (push_tok AnyStar) (re_parse ds) else None)
      else if c = CHR ''|'' then map_option (\<lambda>alts. [] # alts) (re_parse cs)
      else if c = CHR ''^'' then map_option (push_tok Bol) (re_parse cs)
      else if c = CHR ''$'' then map_option (push_tok Eol) (re_parse cs)
      else if c \<in> set special_chars then None
      else map_option (push_tok (Lit c)) (re_parse cs))"

text \<open>
  Whether a token sequence matches a prefix of \<open>s\<close>; \<open>st\<close> says that \<open>s\<close> is the whole
  subject string, that is, that the position is its start. Without flags, \<^verbatim>\<open>^\<close> matches
  at the start only, \<^verbatim>\<open>$\<close> at the end and before a newline that ends the string, and
  \<^verbatim>\<open>.\<close> any character but a newline.
\<close>

fun tmatch :: "tok list \<Rightarrow> bool \<Rightarrow> string \<Rightarrow> bool" where
  "tmatch [] st s = True"
| "tmatch (Lit c # ts) st s = (case s of [] \<Rightarrow> False | x # xs \<Rightarrow> x = c \<and> tmatch ts False xs)"
| "tmatch (Bol # ts) st s = (st \<and> tmatch ts st s)"
| "tmatch (Eol # ts) st s = ((s = [] \<or> s = [newline]) \<and> tmatch ts st s)"
| "tmatch (AnyStar # ts) st s =
     (tmatch ts st s \<or>
      (case s of [] \<Rightarrow> False | x # xs \<Rightarrow> x \<noteq> newline \<and> tmatch (AnyStar # ts) False xs))"

text \<open>\<^verbatim>\<open>re.search\<close> finds a match of some alternative at some position.\<close>

fun search_from :: "tok list list \<Rightarrow> bool \<Rightarrow> string \<Rightarrow> bool" where
  "search_from alts st [] = list_ex (\<lambda>a. tmatch a st []) alts"
| "search_from alts st (x # xs) =
     (list_ex (\<lambda>a. tmatch a st (x # xs)) alts \<or> search_from alts False xs)"

definition re_search :: "string \<Rightarrow> string \<Rightarrow> bool option" where
  "re_search pat s = map_option (\<lambda>alts. search_from alts True s) (re_parse pat)"

subsection \<open>Filtering the candidates (lines 132--145)\<close>

text \<open>
  \<open>includes\<close> and \<open>excludes\<close> are the lists of lines 90--99, empty when the option was not
  given. A pattern that \<^verbatim>\<open>re\<close> cannot compile would raise (\<open>ValueError\<close> stands for
  \<^verbatim>\<open>re.error\<close>).
\<close>

definition include_regex :: "string list \<Rightarrow> string" where
  "include_regex pats = ''^'' @ join_str ''|'' pats @ ''$''"

fun filter_loop :: "string list \<Rightarrow> string list \<Rightarrow> string list \<Rightarrow> string list \<Rightarrow> exn + string list" where
  "filter_loop includes excludes [] queue = Inr queue"
| "filter_loop includes excludes (candidate # rest) queue =
     (case (if includes \<noteq> [] then re_search (include_regex includes) candidate else Some True) of
        None \<Rightarrow> Inl ValueError
      | Some False \<Rightarrow> filter_loop includes excludes rest queue
      | Some True \<Rightarrow>
          (case (if excludes \<noteq> [] then re_search (include_regex excludes) candidate else Some False) of
             None \<Rightarrow> Inl ValueError
           | Some True \<Rightarrow> filter_loop includes excludes rest queue
           | Some False \<Rightarrow> filter_loop includes excludes rest (queue @ [candidate])))"

definition filter_candidates :: "string list \<Rightarrow> string list \<Rightarrow> string list \<Rightarrow> exn + string list" where
  "filter_candidates args_include args_exclude candidates =
     filter_loop (map pattern_regex args_include) (map pattern_regex args_exclude) candidates []"

text \<open>
  A candidate matches a pattern ``anchored at both ends'': the regular expression is
  \<^verbatim>\<open>^\<close>, the one pattern, \<^verbatim>\<open>$\<close>.
\<close>

definition anchored_match :: "string \<Rightarrow> string \<Rightarrow> bool" where
  "anchored_match p candidate =
     (re_search (''^'' @ pattern_regex p @ ''$'') candidate = Some True)"

subsection \<open>Natural sorting (\<^verbatim>\<open>natsorted(xs, alg=ns.IGNORECASE)\<close>)\<close>

text \<open>
  natsort folds the case of the string, cuts it into maximal runs of digits and of other
  characters, reads the digit runs as numbers, and puts an empty text in front when the
  string starts with a digit, so that texts and numbers alternate:
  \<^verbatim>\<open>"img12.png"\<close> has the key \<^verbatim>\<open>("img", 12, ".png")\<close>. The key is kept here as a list of
  pairs of a text and the number after it, if any; the lexicographic order on such lists
  (\<open>None\<close> below \<open>Some\<close>) is the order of Python's tuples. \<^verbatim>\<open>natsorted\<close> is \<^verbatim>\<open>sorted\<close> with
  this key, hence stable; so is \<open>sort_key\<close>.
\<close>

definition is_digit :: "char \<Rightarrow> bool" where
  "is_digit c = (48 \<le> (of_char c :: nat) \<and> (of_char c :: nat) \<le> 57)"

definition digits_value :: "string \<Rightarrow> nat" where
  "digits_value ds = foldl (\<lambda>n c. 10 * n + ((of_char c :: nat) - 48)) 0 ds"

function natsort_split :: "string \<Rightarrow> (string \<times> nat option) list" where
  "natsort_split [] = []"
| "natsort_split (c # cs) =
     (let txt = takeWhile (\<lambda>x. \<not> is_digit x) (c # cs);
          r = dropWhile (\<lambda>x. \<not> is_digit x) (c # cs);
          ds = takeWhile is_digit r;
          r' = dropWhile is_digit r
      in (txt, if ds = [] then None else Some (digits_value ds)) # natsort_split r')"
  by pat_completeness auto
termination
proof (relation "measure length", goal_cases)
  case 1
  show ?case by simp
next
  case (2 c cs run1 r run2 r2)
  have b: "length r2 \<le> length r"
    using 2 length_dropWhile_le [of is_digit r] by simp
  show ?case
  proof (cases "is_digit c")
    case True
    with 2 have "r = c # cs" by simp
    with 2 True have "r2 = dropWhile is_digit cs" by simp
    then have "length r2 \<le> length cs"
      by (simp add: length_dropWhile_le)
    then show ?thesis by simp
  next
    case False
    with 2 have "r = dropWhile (\<lambda>x. \<not> is_digit x) cs" by simp
    then have "length r \<le> length cs"
      by (simp add: length_dropWhile_le)
    with b show ?thesis by simp
  qed
qed

definition natsort_key :: "string \<Rightarrow> (string \<times> nat option) list" where
  "natsort_key s = natsort_split (lower s)"

definition natsorted :: "string list \<Rightarrow> string list" where
  "natsorted xs = sort_key natsort_key xs"

subsection \<open>Resolving the inputs (lines 108--130)\<close>

text \<open>
  Lines 109--115. The test for a URL and the test for a non-empty pattern are two
  separate \<^verbatim>\<open>if\<close> statements; the inner loop appends the sorted matches of each brace
  expansion.
\<close>

fun glob_loop :: "env \<Rightarrow> string list \<Rightarrow> string list \<Rightarrow> string list" where
  "glob_loop e [] paths = paths"
| "glob_loop e (expression # rest) paths =
     glob_loop e rest (paths @ natsorted (glob e expression))"

fun pattern_loop :: "env \<Rightarrow> string list \<Rightarrow> string list \<Rightarrow> string list" where
  "pattern_loop e [] paths = paths"
| "pattern_loop e (pattern # rest) paths =
     (let paths1 = (if startswith_any pattern [''http'', ''https''] then paths @ [pattern] else paths);
          paths2 = (if pattern \<noteq> [] then glob_loop e (braceexpand e pattern) paths1 else paths1)
      in pattern_loop e rest paths2)"

text \<open>\<^verbatim>\<open>os.path.join(a, b)\<close> on POSIX.\<close>

definition path_join :: "string \<Rightarrow> string \<Rightarrow> string" where
  "path_join a b =
     (if startswith b ''/'' then b
      else if a = [] \<or> last a = CHR ''/'' then a @ b
      else a @ ''/'' @ b)"

text \<open>Lines 123--126: the files below a directory, in the order of \<^verbatim>\<open>os.walk\<close>.\<close>

fun walk_loop :: "(string \<times> string list \<times> string list) list \<Rightarrow> string list \<Rightarrow> string list" where
  "walk_loop [] files = files"
| "walk_loop ((dirpath, dirnames, filenames) # rest) files =
     walk_loop rest (files @ map (path_join dirpath) filenames)"

text \<open>Lines 118--130.\<close>

fun candidates_loop :: "env \<Rightarrow> string list \<Rightarrow> string list \<Rightarrow> exn + string list" where
  "candidates_loop e [] candidates = Inr candidates"
| "candidates_loop e (path # rest) candidates =
     (if isfile e path \<or> startswith_any path [''http'', ''https'']
      then candidates_loop e rest (candidates @ [path])
      else if isdir e path
      then candidates_loop e rest (candidates @ natsorted (walk_loop (walk e path) []))
      else Inl (RuntimeError (''Could not recognize '' @ path @ ''.'')))"

text \<open>Lines 108--145 together: from the patterns to the queue.\<close>

definition resolve :: "env \<Rightarrow> string list \<Rightarrow> string list \<Rightarrow> string list \<Rightarrow> exn + string list" where
  "resolve e patterns args_include args_exclude =
     (case candidates_loop e (pattern_loop e patterns []) [] of
        Inl x \<Rightarrow> Inl x
      | Inr candidates \<Rightarrow> filter_candidates args_include args_exclude candidates)"

subsection \<open>The renderer (\<^verbatim>\<open>render\<close>, lines 423--509)\<close>

text \<open>\<^verbatim>\<open>os.path.basename\<close>: what follows the last slash.\<close>

definition basename :: "string \<Rightarrow> string" where
  "basename s = rev (takeWhile (\<lambda>c. c \<noteq> CHR ''/'') (rev s))"

text \<open>
  The arguments are in the order of the source: \<^verbatim>\<open>filename, size, browser, color,
  fontSize, margin, path, relative\<close> (\<open>psize\<close> for \<^verbatim>\<open>size\<close>). The result \<open>Inr None\<close> is the \<^verbatim>\<open>return None\<close> of
  line 470.

  In the browser branch every exception of fetching and laying out is turned into a
  \<^verbatim>\<open>RuntimeError\<close> (lines 453--458); when there is none, line 504 reads the variable
  \<^verbatim>\<open>title\<close>, which only the other branch assigns (line 489).

  In the other branch \<^verbatim>\<open>get\<close> is called outside any \<^verbatim>\<open>try\<close>, the test for a NUL character
  comes next, and the bookmark is set on the first page of the document.
\<close>

definition render ::
  "env \<Rightarrow> string \<Rightarrow> string \<Rightarrow> bool \<Rightarrow> bool \<Rightarrow> string \<Rightarrow> string \<Rightarrow> bool \<Rightarrow> bool
     \<Rightarrow> exn + document option" where
  "render e filename psize browser color fontSize margin path relative =
     (if browser then
        (case (case get e filename of
                 Inl x \<Rightarrow> Inl x
               | Inr text \<Rightarrow> browser_pages e filename text relative fontSize margin psize) of
           Inl x \<Rightarrow>
             if x \<in> set [RequestException, URLFetchingError]
             then Inl (RuntimeError (''Could not GET '' @ filename @ ''.''))
             else Inl (RuntimeError (''Could not read '' @ filename @ ''.''))
         | Inr ps \<Rightarrow> Inl UnboundLocalError)
      else
        (case get e filename of
           Inl x \<Rightarrow> Inl x
         | Inr code \<Rightarrow>
             if CHR 0x00 \<in> set code then Inr None
             else
               (let title = (if path then filename else basename filename)
                in case highlight_pages e filename code color title fontSize margin psize of
                     [] \<Rightarrow> Inl IndexError
                   | p # ps \<Rightarrow>
                       Inr (Some (Document
                         (p\<lparr>bookmarks := [(1, title, (0, 0), ''closed'')]\<rparr> # ps))))))"

subsection \<open>PDF files (PyPDF2) and the file system\<close>

text \<open>
  A page of a PDF file has a media box (lower left and upper right corner) and content
  streams, each with the translation it was placed under. A file is named by the user
  or is the \<open>n\<close>-th temporary file that \<^verbatim>\<open>mkstemp\<close> has handed out, whose name is new by
  the contract of \<^verbatim>\<open>mkstemp\<close>. The world is the files that exist, the descriptors that are
  open, and the number of the next temporary file.
\<close>

record box =
  llx :: real
  lly :: real
  urx :: real
  ury :: real

record pdf_page =
  mediaBox :: box
  streams :: "(string \<times> real \<times> real) list"

datatype fdata = Empty | PdfFile "pdf_page list"

datatype path = Named string | Temp nat

record world =
  files :: "path \<rightharpoonup> fdata"
  fds :: "nat set"
  next_tmp :: nat

text \<open>\<^verbatim>\<open>mkstemp()\<close> creates an empty file and returns its open descriptor and its name.\<close>

definition mkstemp :: "world \<Rightarrow> (nat \<times> path) \<times> world" where
  "mkstemp w =
     (let n = next_tmp w
      in ((n, Temp n),
          w\<lparr>files := (files w)(Temp n \<mapsto> Empty), fds := insert n (fds w), next_tmp := Suc n\<rparr>))"

text \<open>
  \<^verbatim>\<open>write_pdf\<close> serialises a page with its media box at the origin; the bookmarks become
  the outline of the file, which the compositor does not read.
\<close>

definition pdf_of_page :: "page \<Rightarrow> pdf_page" where
  "pdf_of_page p =
     \<lparr>mediaBox = \<lparr>llx = 0, lly = 0, urx = width p, ury = height p\<rparr>,
      streams = [(content p, 0, 0)]\<rparr>"

subsection \<open>The writer (\<^verbatim>\<open>write\<close>, lines 512--524)\<close>

text \<open>
  \<open>write_documents\<close> is the function \<^verbatim>\<open>write\<close> of the source. The parameter \<^verbatim>\<open>echo\<close> only chooses whether a message is printed and is left out.
  The comprehension of line 518 is \<open>concat (map pages documents)\<close>.
\<close>

definition write_documents :: "world \<Rightarrow> path \<Rightarrow> document list \<Rightarrow> bool \<times> world" where
  "write_documents w output documents =
     (if documents \<noteq> [] then
        (let ps = concat (map pages documents)
         in (True, w\<lparr>files := (files w)(output \<mapsto> PdfFile (map pdf_of_page ps))\<rparr>))
      else (False, w))"

subsection \<open>The plain path of \<^verbatim>\<open>main\<close> (lines 282--291)\<close>



subsection \<open>The compositor (\<^verbatim>\<open>concatenate\<close>, lines 305--339)\<close>

text \<open>
  \<^verbatim>\<open>PdfFileReader(name)\<close> reads the pages of a file; a file that does not exist or is not
  a PDF raises.
\<close>

definition PdfFileReader :: "world \<Rightarrow> path \<Rightarrow> exn + pdf_page list" where
  "PdfFileReader w name =
     (case files w name of
        None \<Rightarrow> Inl FileNotFoundError
      | Some Empty \<Rightarrow> Inl PdfReadError
      | Some (PdfFile ps) \<Rightarrow> Inr ps)"

text \<open>Line 309: \<^verbatim>\<open>list(map(PdfFileReader, inputs))\<close>.\<close>

fun read_all :: "world \<Rightarrow> path list \<Rightarrow> exn + pdf_page list list" where
  "read_all w [] = Inr []"
| "read_all w (i # rest) =
     (case PdfFileReader w i of
        Inl x \<Rightarrow> Inl x
      | Inr r \<Rightarrow> (case read_all w rest of Inl x \<Rightarrow> Inl x | Inr rs \<Rightarrow> Inr (r # rs)))"

text \<open>
  \<^verbatim>\<open>blank(size)\<close> with the size \<^verbatim>\<open>"{}pt {}pt"\<close> of line 313: WeasyPrint lays out the empty
  string as one empty page of that size.
\<close>

definition blank :: "real \<Rightarrow> real \<Rightarrow> document" where
  "blank w h = Document [\<lparr>width = w, height = h, content = [], bookmarks = []\<rparr>]"

text \<open>
  PyPDF2's \<^verbatim>\<open>left.mergeTranslatedPage(right, tx, ty, expand=True)\<close>: the content of
  \<open>right\<close> is added to \<open>left\<close> under the translation, and the media box of \<open>left\<close> grows to
  the smallest box that holds its own corners and the translated corners of \<open>right\<close>.
  Pages are values here: the \<^verbatim>\<open>copy\<close> of lines 324 and 328 is the page itself.
\<close>

definition mergeTranslatedPage :: "pdf_page \<Rightarrow> pdf_page \<Rightarrow> real \<Rightarrow> real \<Rightarrow> pdf_page" where
  "mergeTranslatedPage left right tx ty =
     (let b1 = mediaBox left; b2 = mediaBox right;
          xs = [llx b2 + tx, urx b2 + tx];
          ys = [lly b2 + ty, ury b2 + ty]
      in \<lparr>mediaBox =
            \<lparr>llx = min (llx b1) (min (xs ! 0) (xs ! 1)),
             lly = min (lly b1) (min (ys ! 0) (ys ! 1)),
             urx = max (urx b1) (max (xs ! 0) (xs ! 1)),
             ury = max (ury b1) (max (ys ! 0) (ys ! 1))\<rparr>,
          streams = streams left @ map (\<lambda>(c, x, y). (c, x + tx, y + ty)) (streams right)\<rparr>)"

text \<open>
  Lines 324 and 328: page \<open>i\<close> of a reader, or the blank page when the reader has no
  page \<open>i\<close>.
\<close>

definition page_or_blank :: "pdf_page \<Rightarrow> pdf_page list \<Rightarrow> nat \<Rightarrow> pdf_page" where
  "page_or_blank page reader i = (if i < length reader then reader ! i else page)"

text \<open>Lines 327--329: the loop over \<^verbatim>\<open>readers[1:]\<close>.\<close>

fun rightmost_loop :: "pdf_page \<Rightarrow> nat \<Rightarrow> pdf_page list list \<Rightarrow> pdf_page \<Rightarrow> pdf_page" where
  "rightmost_loop page i [] left = left"
| "rightmost_loop page i (reader # rest) left =
     rightmost_loop page i rest
       (mergeTranslatedPage left (page_or_blank page reader i) (urx (mediaBox left)) 0)"

text \<open>
  Lines 321--332: the loop over the page numbers; \<open>r0\<close> is \<^verbatim>\<open>readers[0]\<close>, \<open>rs\<close> is
  \<^verbatim>\<open>readers[1:]\<close>, \<open>out\<close> the pages added to the writer so far.
\<close>

fun pages_loop ::
  "pdf_page \<Rightarrow> pdf_page list \<Rightarrow> pdf_page list list \<Rightarrow> nat list \<Rightarrow> pdf_page list \<Rightarrow> pdf_page list" where
  "pages_loop page r0 rs [] out = out"
| "pages_loop page r0 rs (i # rest) out =
     pages_loop page r0 rs rest (out @ [rightmost_loop page i rs (page_or_blank page r0 i)])"

text \<open>\<^verbatim>\<open>max\<close> of a non-empty list of numbers.\<close>

fun max_of :: "nat \<Rightarrow> nat list \<Rightarrow> nat" where
  "max_of m [] = m"
| "max_of m (n # ns) = max_of (max m n) ns"

text \<open>
  The whole function. The temporary file for the blank page is made before the first
  page of the first input is looked at (lines 312--313), and removed in the last line
  only.
\<close>

definition concatenate :: "world \<Rightarrow> path \<Rightarrow> path list \<Rightarrow> (exn + unit) \<times> world" where
  "concatenate w output inputs =
     (case read_all w inputs of
        Inl x \<Rightarrow> (Inl x, w)
      | Inr readers \<Rightarrow>
          (let (temp, w1) = mkstemp w
           in case readers of
                [] \<Rightarrow> (Inl IndexError, w1)
              | r0 # rs \<Rightarrow>
                  (case r0 of
                     [] \<Rightarrow> (Inl IndexError, w1)
                   | p0 # _ \<Rightarrow>
                       (let w2 = snd (write_documents w1 (snd temp)
                                        [blank (urx (mediaBox p0)) (ury (mediaBox p0))])
                        in case PdfFileReader w2 (snd temp) of
                             Inl x \<Rightarrow> (Inl x, w2)
                           | Inr [] \<Rightarrow> (Inl IndexError, w2)
                           | Inr (page # _) \<Rightarrow>
                               (let n = max_of (length r0) (map length rs);
                                    out = pages_loop page r0 rs [0..<n] [];
                                    w3 = w2\<lparr>files := (files w2)(output \<mapsto> PdfFile out)\<rparr>
                                in (Inr (),
                                    w3\<lparr>fds := fds w3 - {fst temp},
                                       files := (files w3)(snd temp := None)\<rparr>))))))"

subsection \<open>The side-by-side path of \<^verbatim>\<open>main\<close> (lines 242--280)\<close>

text \<open>
  Lines 246--251, 254--260 and 264--269 are the same steps for \<^verbatim>\<open>queue[k]\<close>, \<open>k\<close> from
  0 to 2, with a margin of its own: make a temporary file, render the input (font size
  \<^verbatim>\<open>8pt\<close>, no relative links), leave with \<^verbatim>\<open>cancel(1)\<close> when there is no document, write
  the document to the temporary file. \<open>stage\<close> is that step; it returns the pair that
  was appended to \<^verbatim>\<open>temps\<close>.
\<close>

definition stage ::
  "env \<Rightarrow> world \<Rightarrow> string list \<Rightarrow> nat \<Rightarrow> string \<Rightarrow> bool \<Rightarrow> bool \<Rightarrow> bool \<Rightarrow> string
     \<Rightarrow> (exn + nat \<times> path) \<times> world" where
  "stage e w queue k margin browser no_color no_path psize =
     (let (temp, w1) = mkstemp w
      in if k < length queue then
           (case render e (queue ! k) psize browser (\<not> no_color) ''8pt'' margin (\<not> no_path) False of
              Inl x \<Rightarrow> (Inl x, w1)
            | Inr None \<Rightarrow> (Inl (SystemExit 1), w1)
            | Inr (Some document) \<Rightarrow> (Inr temp, snd (write_documents w1 (snd temp) [document])))
         else (Inl IndexError, w1))"

text \<open>
  Lines 242--280. Lines 275 and 276 build two \<^verbatim>\<open>map\<close> objects and drop them; in Python 3
  a \<^verbatim>\<open>map\<close> object calls its function only when it is iterated, so neither \<^verbatim>\<open>os.close\<close>
  nor \<^verbatim>\<open>os.remove\<close> is ever called and the world is the one \<^verbatim>\<open>concatenate\<close> left. The run
  ends with \<^verbatim>\<open>sys.exit(0)\<close>.
\<close>

definition side_by_side ::
  "env \<Rightarrow> world \<Rightarrow> string \<Rightarrow> string list \<Rightarrow> bool \<Rightarrow> bool \<Rightarrow> bool \<Rightarrow> string
     \<Rightarrow> exn \<times> world" where
  "side_by_side e w output queue browser no_color no_path psize =
     (case stage e w queue 0 ''.5in .25in .5in .5in'' browser no_color no_path psize of
        (Inl x, w1) \<Rightarrow> (x, w1)
      | (Inr t0, w1) \<Rightarrow>
          (case stage e w1 queue 1
                  (if length queue = 2 then ''.5in .5in .5in .25in'' else ''.5in .375in .5in .375in'')
                  browser no_color no_path psize of
             (Inl x, w2) \<Rightarrow> (x, w2)
           | (Inr t1, w2) \<Rightarrow>
               (case (if length queue = 3
                      then (case stage e w2 queue 2 ''.5in .5in .5in .25in''
                                   browser no_color no_path psize of
                              (Inl x, w3) \<Rightarrow> (Inl x, w3)
                            | (Inr t2, w3) \<Rightarrow> (Inr [t0, t1, t2], w3))
                      else (Inr [t0, t1], w2)) of
                  (Inl x, w3) \<Rightarrow> (x, w3)
                | (Inr temps, w3) \<Rightarrow>
                    (case concatenate w3 (Named output) (map snd temps) of
                       (Inl x, w4) \<Rightarrow> (x, w4)
                     | (Inr u, w4) \<Rightarrow> (SystemExit 0, w4)))))"

subsection \<open>What one pattern and one path contribute\<close>

text \<open>
  The paths that lines 111--115 append for one pattern, and the candidates that lines
  120--128 append for one path that is recognized.
\<close>

definition pattern_paths :: "env \<Rightarrow> string \<Rightarrow> string list" where
  "pattern_paths e pattern =
     (if startswith_any pattern [''http'', ''https''] then [pattern] else [])
     @ (if pattern \<noteq> []
        then concat (map (\<lambda>x. natsorted (glob e x)) (braceexpand e pattern)) else [])"

definition path_candidates :: "env \<Rightarrow> string \<Rightarrow> string list" where
  "path_candidates e path =
     (if isfile e path \<or> startswith_any path [''http'', ''https''] then [path]
      else natsorted (walk_loop (walk e path) []))"

subsection \<open>Notions used to state the properties of the compositor\<close>

text \<open>
  The inner loop of \<^verbatim>\<open>concatenate\<close> on the pages it has chosen: each page is merged at
  the right edge the accumulated page has at that moment.
\<close>

fun merge_row :: "pdf_page \<Rightarrow> pdf_page list \<Rightarrow> pdf_page" where
  "merge_row left [] = left"
| "merge_row left (right # rest) =
     merge_row (mergeTranslatedPage left right (urx (mediaBox left)) 0) rest"

text \<open>
  The page that line 315 reads back: the first page of the file that \<^verbatim>\<open>write\<close> made of
  \<^verbatim>\<open>blank(size)\<close>, the size taken from the media box of \<open>p0\<close> (line 313).
\<close>

definition filler :: "pdf_page \<Rightarrow> pdf_page" where
  "filler p0 = pdf_of_page (hd (pages (blank (urx (mediaBox p0)) (ury (mediaBox p0)))))"


definition at_origin :: "pdf_page \<Rightarrow> bool" where
  "at_origin p =
     (llx (mediaBox p) = 0 \<and> lly (mediaBox p) = 0 \<and> 0 \<le> urx (mediaBox p) \<and> 0 \<le> ury (mediaBox p))"

subsection \<open>Temporary files that outlive a step\<close>

text \<open>
  \<open>keeps w w'\<close>: every temporary file that \<^verbatim>\<open>mkstemp\<close> has handed out up to \<open>w\<close> and that
  exists in \<open>w\<close> still exists in \<open>w'\<close>, and every one of their descriptors that is open
  in \<open>w\<close> is still open in \<open>w'\<close>.
\<close>

definition keeps :: "world \<Rightarrow> world \<Rightarrow> bool" where
  "keeps w w' =
     (next_tmp w \<le> next_tmp w'
      \<and> (\<forall>k < next_tmp w. files w (Temp k) \<noteq> None \<longrightarrow> files w' (Temp k) \<noteq> None)
      \<and> (\<forall>k < next_tmp w. k \<in> fds w \<longrightarrow> k \<in> fds w'))"

subsection \<open>A small environment to run the model in\<close>

text \<open>
  A directory with four text files, a file with a NUL character, a file that cannot be
  read, two files whose names start with \<open>http\<close>, and a subdirectory; \<^verbatim>\<open>glob\<close> returns
  the entries in the order \<open>b.txt\<close>, \<open>a.txt\<close>, \<open>B2.txt\<close>, \<open>b10.txt\<close>. Every text is laid out as
  one page of 612 by 792 points, except \<open>long.txt\<close>, which takes two.
\<close>

definition demo_page :: "string \<Rightarrow> page" where
  "demo_page code = \<lparr>width = 612, height = 792, content = code, bookmarks = []\<rparr>"

definition demo_env :: env where
  "demo_env =
     \<lparr>braceexpand = (\<lambda>p. if p = ''{b,a}.txt'' then [''b.txt'', ''a.txt''] else [p]),
      glob = (\<lambda>x. if x = ''*.txt'' then [''b.txt'', ''a.txt'', ''B2.txt'', ''b10.txt'']
                   else if x = ''[Aa].c'' then [''A.c'', ''a.c'']
                   else if x = ''http*'' then [''httpd.conf'', ''http.log'']
                   else if x \<in> set [''b.txt'', ''a.txt'', ''B2.txt'', ''b10.txt'', ''long.txt'',
                                     ''bin.dat'', ''locked'', ''src'']
                   then [x] else []),
      isfile = (\<lambda>p. p \<in> set [''b.txt'', ''a.txt'', ''B2.txt'', ''b10.txt'', ''long.txt'',
                               ''bin.dat'', ''locked'', ''A.c'', ''a.c'', ''src/m.py'', ''src/lib/u.py'',
                               ''httpd.conf'', ''http.log'']),
      isdir = (\<lambda>p. p \<in> set [''src'', ''src/lib'']),
      walk = (\<lambda>p. if p = ''src'' then [(''src'', [''lib''], [''m.py'']), (''src/lib'', [], [''u.py''])]
                   else if p = ''src/lib'' then [(''src/lib'', [], [''u.py''])] else []),
      read_bytes = (\<lambda>f. if f \<in> set [''b.txt'', ''a.txt'', ''B2.txt'', ''b10.txt''] then Inr (''text of '' @ f)
                         else if f = ''long.txt'' then Inr ''a long text''
                         else if f = ''bin.dat'' then Inr [CHR ''E'', CHR ''L'', CHR ''F'', CHR 0x00, CHR 0x01]
                         else if f = ''locked'' then Inl PermissionError
                         else if f \<in> set [''src'', ''src/lib''] then Inl IsADirectoryError
                         else Inl FileNotFoundError),
      decode = (\<lambda>bs. bs),
      raw_url = (\<lambda>u. u),
      http_get = (\<lambda>u. Inr (404, [])),
      highlight_pages = (\<lambda>filename code color title fontSize margin psize.
                          if filename = ''long.txt'' then [demo_page code, demo_page code]
                          else [demo_page code]),
      browser_pages = (\<lambda>filename text relative fontSize margin psize. Inr [demo_page text])\<rparr>"

definition demo_tty :: tty where
  "demo_tty = \<lparr>pending = [''maybe'', ''Y''], shown = []\<rparr>"

definition demo_world :: world where
  "demo_world = \<lparr>files = Map.empty, fds = {}, next_tmp = 0\<rparr>"

text \<open>
  The world after two inputs have been staged: the first temporary file holds one page,
  the second two pages.
\<close>

definition demo_staged :: world where
  "demo_staged =
     \<lparr>files = [Temp 0 \<mapsto> PdfFile [pdf_of_page (demo_page ''a'')],
               Temp 1 \<mapsto> PdfFile [pdf_of_page (demo_page ''b1''), pdf_of_page (demo_page ''b2'')]],
      fds = {0, 1},
      next_tmp = 2\<rparr>"


section \<open>Properties\<close>

subsection \<open>The fetcher\<close>



subsection \<open>The overwrite prompt\<close>

text \<open>
  Claim C7, as stated: the overwrite prompt is skipped with \<^verbatim>\<open>--force\<close> and when the inputs
  came from standard input, and in both cases the run goes on to render and overwrite.
  With the inputs from standard input, an existing output and no \<^verbatim>\<open>--force\<close>, the run
  does not go on: line 167 raises ``Output exists.''.
\<close>

theorem confirm_overwrite_stdin_counterexample:
  "confirm_overwrite False [] True ''out.pdf'' demo_tty
     = (Inl (RuntimeError ''Output exists.''), demo_tty)
   \<and> fst (confirm_overwrite False [] True ''out.pdf'' demo_tty) \<noteq> Inr ()"
  by (simp add: confirm_overwrite_def)

text \<open>
  Claim C7, amended. With \<^verbatim>\<open>--force\<close> the run goes on and nothing is asked. With the
  inputs from standard input, an existing output and no \<^verbatim>\<open>--force\<close>, nothing is asked
  either, and the run ends with the error ``Output exists.''. With positional inputs,
  an existing output and no \<^verbatim>\<open>--force\<close>, the prompt is shown.
\<close>

theorem confirm_overwrite_skipped:
  "(force \<longrightarrow> confirm_overwrite force INPUT exists output t = (Inr (), t))
   \<and> (\<not> force \<and> exists \<and> INPUT = [] \<longrightarrow>
        confirm_overwrite force INPUT exists output t = (Inl (RuntimeError ''Output exists.''), t))
   \<and> (\<not> force \<and> exists \<and> INPUT \<noteq> [] \<longrightarrow>
        shown (snd (confirm_overwrite force INPUT exists output t)) \<noteq> shown t)"
proof -
  have grow: "length sh < length (shown (snd (ask_overwrite output ls sh)))" for ls sh
  proof (induction ls arbitrary: sh)
    case Nil
    show ?case by simp
  next
    case (Cons l ls)
    have "length sh < length (sh @ [''Overwrite '' @ output @ ''? ''])" by simp
    also have "\<dots> < length (shown (snd (ask_overwrite output ls (sh @ [''Overwrite '' @ output @ ''? '']))))"
      by (rule Cons.IH)
    finally show ?case
      by (simp add: Let_def)
  qed
  have "shown (snd (ask_overwrite output (pending t) (shown t))) \<noteq> shown t"
    using grow [of "shown t" "pending t"] by auto
  then show ?thesis
    by (simp add: confirm_overwrite_def)
qed

theorem confirm_overwrite_skipped_witness:
  "confirm_overwrite True [''a.txt''] True ''out.pdf'' demo_tty = (Inr (), demo_tty)
   \<and> confirm_overwrite False [] True ''out.pdf'' demo_tty
       = (Inl (RuntimeError ''Output exists.''), demo_tty)
   \<and> shown (snd (confirm_overwrite False [''a.txt''] True ''out.pdf'' demo_tty)) \<noteq> shown demo_tty"
  using confirm_overwrite_skipped [of True "[''a.txt'']" True "''out.pdf''" demo_tty]
    confirm_overwrite_skipped [of False "[]" True "''out.pdf''" demo_tty]
    confirm_overwrite_skipped [of False "[''a.txt'']" True "''out.pdf''" demo_tty]
  by simp

subsection \<open>The writer\<close>

text \<open>
  Claim C9. Given no document, the writer returns \<open>False\<close> and leaves the world as it is.
  Given at least one, it returns \<open>True\<close>, and the file at the given path holds the pages
  of all documents, in the order of the documents and of their pages, as one PDF: as
  many pages as the documents have together. No other file changes.
\<close>

theorem write_documents_spec:
  "write_documents w output [] = (False, w)
   \<and> (documents \<noteq> [] \<longrightarrow>
        (\<exists>w'. write_documents w output documents = (True, w')
          \<and> files w' output = Some (PdfFile (map pdf_of_page (concat (map pages documents))))
          \<and> length (concat (map pages documents)) = sum_list (map (\<lambda>d. length (pages d)) documents)
          \<and> (\<forall>p. p \<noteq> output \<longrightarrow> files w' p = files w p)
          \<and> fds w' = fds w \<and> next_tmp w' = next_tmp w))"
  by (simp add: write_documents_def length_concat comp_def)

theorem write_documents_spec_witness:
  "[Document [demo_page ''one'', demo_page ''two''], Document [demo_page ''three'']] \<noteq> []
   \<and> fst (write_documents demo_world (Named ''out.pdf'')
             [Document [demo_page ''one'', demo_page ''two''], Document [demo_page ''three'']])
   \<and> files (snd (write_documents demo_world (Named ''out.pdf'')
             [Document [demo_page ''one'', demo_page ''two''], Document [demo_page ''three'']]))
        (Named ''out.pdf'')
       = Some (PdfFile [pdf_of_page (demo_page ''one''), pdf_of_page (demo_page ''two''),
                        pdf_of_page (demo_page ''three'')])"
  using write_documents_spec [of demo_world "Named ''out.pdf''"
      "[Document [demo_page ''one'', demo_page ''two''], Document [demo_page ''three'']]"]
  by auto

subsection \<open>Binary files\<close>





subsection \<open>Resolving the inputs\<close>

lemma startswith_http: "startswith_any p [''http'', ''https''] = startswith p ''http''"
proof -
  have a: "startswith p ''http''" if h: "startswith p ''https''"
  proof -
    from h have h': "take (length ''https'') p = ''https''"
      by (simp only: startswith_def)
    have "take (length ''http'') (take (length ''https'') p) = take (length ''http'') ''https''"
      by (simp only: h')
    then show ?thesis
      by (simp add: startswith_def)
  qed
  have "startswith_any p [''http'', ''https'']
      = (startswith p ''http'' \<or> startswith p ''https'')"
    by (simp only: startswith_any_def list_ex_iff set_simps bex_simps insert_iff empty_iff HOL.simp_thms)
  also have "\<dots> = startswith p ''http''"
    using a by blast
  finally show ?thesis .
qed

lemma glob_loop_eq: "glob_loop e xs paths = paths @ concat (map (\<lambda>x. natsorted (glob e x)) xs)"
  by (induction xs arbitrary: paths) simp_all

lemma pattern_loop_eq: "pattern_loop e ps paths = paths @ concat (map (pattern_paths e) ps)"
  by (induction ps arbitrary: paths) (simp_all add: pattern_paths_def glob_loop_eq Let_def)

lemma walk_loop_eq: "walk_loop ts acc = acc @ concat (map (\<lambda>(d, ds, fs). map (path_join d) fs) ts)"
  by (induction ts arbitrary: acc) auto

lemma candidates_loop_eq:
  "candidates_loop e paths cands = Inr cs \<Longrightarrow> cs = cands @ concat (map (path_candidates e) paths)"
proof (induction paths arbitrary: cands)
  case Nil
  then show ?case by simp
next
  case (Cons p paths)
  show ?case
  proof (cases "isfile e p \<or> startswith_any p [''http'', ''https'']")
    case True
    with Cons.prems have "candidates_loop e paths (cands @ [p]) = Inr cs" by auto
    from Cons.IH [OF this] True show ?thesis
      by (simp add: path_candidates_def)
  next
    case False
    with Cons.prems have d: "isdir e p"
      by (auto split: if_splits)
    with Cons.prems False
    have "candidates_loop e paths (cands @ natsorted (walk_loop (walk e p) [])) = Inr cs"
      by simp
    from Cons.IH [OF this] False show ?thesis
      by (simp add: path_candidates_def)
  qed
qed


lemma pattern_loop_mid:
  "pattern_loop e (ps1 @ pattern # ps2) []
     = pattern_loop e ps1 [] @ pattern_paths e pattern @ pattern_loop e ps2 []"
  by (simp add: pattern_loop_eq)

lemma candidates_loop_keeps:
  assumes "candidates_loop e paths [] = Inr cs" and "p \<in> set paths"
    and "isfile e p \<or> startswith_any p [''http'', ''https'']"
  shows "p \<in> set cs"
proof -
  have "cs = concat (map (path_candidates e) paths)"
    using candidates_loop_eq [OF assms(1)] by simp
  moreover have "p \<in> set (path_candidates e p)"
    using assms(3) by (simp add: path_candidates_def)
  ultimately show ?thesis
    using assms(2) by auto
qed

text \<open>
  Claim C10. A pattern that starts with \<^verbatim>\<open>http\<close> is appended to the paths as it is, and
  its brace expansions are still globbed: their sorted matches follow it. So every
  match is among the paths, and, when the loop over the paths recognizes all of them,
  the pattern and every match that is a file are among the candidates.
\<close>

theorem http_pattern_also_globbed:
  assumes "startswith pattern ''http''"
  shows "pattern_loop e (ps1 @ pattern # ps2) []
           = pattern_loop e ps1 [] @ [pattern]
             @ concat (map (\<lambda>x. natsorted (glob e x)) (braceexpand e pattern))
             @ pattern_loop e ps2 []
       \<and> (\<forall>x \<in> set (braceexpand e pattern). \<forall>f \<in> set (glob e x).
            f \<in> set (pattern_loop e (ps1 @ pattern # ps2) []))
       \<and> (candidates_loop e (pattern_loop e (ps1 @ pattern # ps2) []) [] = Inr cs \<longrightarrow>
            pattern \<in> set cs
            \<and> (\<forall>x \<in> set (braceexpand e pattern). \<forall>f \<in> set (glob e x).
                 isfile e f \<longrightarrow> f \<in> set cs))"
proof -
  let ?paths = "pattern_loop e (ps1 @ pattern # ps2) []"
  have h: "startswith_any pattern [''http'', ''https'']"
    using assms by (simp add: startswith_http)
  then have ne: "pattern \<noteq> []"
    by (auto simp: startswith_any_def startswith_def)
  have pp: "pattern_paths e pattern
      = pattern # concat (map (\<lambda>x. natsorted (glob e x)) (braceexpand e pattern))"
    using h ne by (simp add: pattern_paths_def)
  have a: "?paths = pattern_loop e ps1 [] @ [pattern]
             @ concat (map (\<lambda>x. natsorted (glob e x)) (braceexpand e pattern))
             @ pattern_loop e ps2 []"
    by (simp add: pattern_loop_mid pp)
  have b: "f \<in> set ?paths" if "x \<in> set (braceexpand e pattern)" and "f \<in> set (glob e x)" for x f
  proof -
    from that have "f \<in> set (concat (map (\<lambda>x. natsorted (glob e x)) (braceexpand e pattern)))"
      by (auto simp: natsorted_def)
    then show ?thesis
      by (simp add: a)
  qed
  have p: "pattern \<in> set ?paths"
    by (simp add: a)
  have c: "pattern \<in> set cs
        \<and> (\<forall>x \<in> set (braceexpand e pattern). \<forall>f \<in> set (glob e x). isfile e f \<longrightarrow> f \<in> set cs)"
    if r: "candidates_loop e ?paths [] = Inr cs"
  proof -
    have "pattern \<in> set cs"
      using candidates_loop_keeps [OF r p] h by simp
    moreover have "f \<in> set cs"
      if "x \<in> set (braceexpand e pattern)" and "f \<in> set (glob e x)" and "isfile e f" for x f
      using candidates_loop_keeps [OF r b [OF that(1,2)]] that(3) by simp
    ultimately show ?thesis by blast
  qed
  from a b c show ?thesis by blast
qed

theorem http_pattern_also_globbed_witness:
  "startswith ''http*'' ''http''
   \<and> pattern_loop demo_env [''http*''] [] = [''http*'', ''http.log'', ''httpd.conf'']
   \<and> ''http.log'' \<in> set (glob demo_env ''http*'')
   \<and> candidates_loop demo_env (pattern_loop demo_env [''http*''] []) []
       = Inr [''http*'', ''http.log'', ''httpd.conf'']"
proof -
  have h: "startswith ''http*'' ''http''"
    by (simp add: startswith_def)
  have g: "concat (map (\<lambda>x. natsorted (glob demo_env x)) (braceexpand demo_env ''http*''))
      = [''http.log'', ''httpd.conf'']"
    by code_simp
  have m: "''http.log'' \<in> set (glob demo_env ''http*'')"
    by (simp add: demo_env_def)
  have c: "candidates_loop demo_env [''http*'', ''http.log'', ''httpd.conf''] []
      = Inr [''http*'', ''http.log'', ''httpd.conf'']"
    by code_simp
  from http_pattern_also_globbed [OF h, of demo_env "[]" "[]"] g
  have "pattern_loop demo_env [''http*''] [] = [''http*'', ''http.log'', ''httpd.conf'']"
    by simp
  with h m c show ?thesis by simp
qed

subsection \<open>The order of the resolved targets\<close>

lemma sorted_natsorted: "sorted (map natsort_key (natsorted xs))"
  by (simp add: natsorted_def)

lemma mset_natsorted: "mset (natsorted xs) = mset xs"
  by (simp add: natsorted_def)

lemma keys_natsorted: "map natsort_key (natsorted xs) = sort (map natsort_key xs)"
proof -
  have "sort (map natsort_key xs) = map natsort_key (natsorted xs)"
    by (rule properties_for_sort) (simp_all add: natsorted_def)
  then show ?thesis by simp
qed

lemma natsorted_keys_perm:
  assumes "mset xs = mset ys"
  shows "map natsort_key (natsorted xs) = map natsort_key (natsorted ys)"
proof -
  from assms have "mset (map natsort_key xs) = mset (map natsort_key ys)"
    by simp
  then have "sort (map natsort_key xs) = sort (map natsort_key ys)"
    by (metis properties_for_sort sorted_sort mset_sort)
  then show ?thesis
    by (simp add: keys_natsorted)
qed

lemma natsorted_perm:
  assumes "mset xs = mset ys" and "inj_on natsort_key (set xs)"
  shows "natsorted xs = natsorted ys"
  unfolding natsorted_def
  by (rule sort_key_inj_key_eq) (simp_all add: assms)

text \<open>
  Claim C5, as stated: the resolved targets of every list of patterns are in natural
  order. Two patterns (or the two expansions of one brace pattern) are resolved one
  after the other, and the paths of the first stay before those of the second.
\<close>

theorem resolved_order_counterexample:
  "resolve demo_env [''b.txt'', ''a.txt''] [] [] = Inr [''b.txt'', ''a.txt'']
   \<and> resolve demo_env [''{b,a}.txt''] [] [] = Inr [''b.txt'', ''a.txt'']
   \<and> natsort_key ''a.txt'' < natsort_key ''b.txt''
   \<and> \<not> sorted (map natsort_key [''b.txt'', ''a.txt''])"
  by code_simp

text \<open>
  Claim C5, amended. The paths are, pattern after pattern: the pattern itself when it
  starts with \<^verbatim>\<open>http\<close>, then, for each brace expansion in turn, its matches in natural
  order. The candidates are, path after path: the path itself when it is a file or
  starts with \<^verbatim>\<open>http\<close>, else the files below the directory in natural order. Natural
  order means: sorted by the case-folded key with numbers compared as numbers, a
  rearrangement of what the filesystem returned; the keys come out in the same order
  whatever order the filesystem returned the entries in, and so do the entries
  themselves when no two of them have the same key.
\<close>

theorem resolved_order:
  "pattern_loop e ps []
     = concat (map (\<lambda>p. (if startswith p ''http'' then [p] else [])
                        @ (if p \<noteq> [] then concat (map (\<lambda>x. natsorted (glob e x)) (braceexpand e p))
                           else [])) ps)
   \<and> (candidates_loop e paths [] = Inr cs \<longrightarrow>
        cs = concat (map (\<lambda>p. if isfile e p \<or> startswith p ''http'' then [p]
                               else natsorted (walk_loop (walk e p) [])) paths))
   \<and> sorted (map natsort_key (natsorted xs))
   \<and> mset (natsorted xs) = mset xs
   \<and> (mset xs = mset ys \<longrightarrow> map natsort_key (natsorted xs) = map natsort_key (natsorted ys))
   \<and> (mset xs = mset ys \<and> inj_on natsort_key (set xs) \<longrightarrow> natsorted xs = natsorted ys)"
proof -
  have pp: "pattern_paths e = (\<lambda>p. (if startswith p ''http'' then [p] else [])
                        @ (if p \<noteq> [] then concat (map (\<lambda>x. natsorted (glob e x)) (braceexpand e p))
                           else []))"
    by (rule ext) (simp only: pattern_paths_def startswith_http)
  have pc: "path_candidates e = (\<lambda>p. if isfile e p \<or> startswith p ''http'' then [p]
                               else natsorted (walk_loop (walk e p) []))"
    by (rule ext) (simp only: path_candidates_def startswith_http)
  have a: "pattern_loop e ps [] = concat (map (pattern_paths e) ps)"
    by (simp add: pattern_loop_eq)
  have b: "cs = concat (map (path_candidates e) paths)" if "candidates_loop e paths [] = Inr cs"
    using candidates_loop_eq [OF that] by simp
  show ?thesis
    using a b sorted_natsorted [of xs] mset_natsorted [of xs]
      natsorted_keys_perm [of xs ys] natsorted_perm [of xs ys]
    unfolding pp pc by blast
qed

theorem resolved_order_witness:
  "pattern_loop demo_env [''http://h/x'', ''*.txt''] []
     = [''http://h/x'', ''a.txt'', ''B2.txt'', ''b10.txt'', ''b.txt'']
   \<and> candidates_loop demo_env [''a.txt'', ''src''] [] = Inr [''a.txt'', ''src/lib/u.py'', ''src/m.py'']
   \<and> mset [''b.txt'', ''a.txt'', ''B2.txt'', ''b10.txt''] = mset [''b10.txt'', ''B2.txt'', ''a.txt'', ''b.txt'']
   \<and> inj_on natsort_key (set [''b.txt'', ''a.txt'', ''B2.txt'', ''b10.txt''])
   \<and> natsorted [''b.txt'', ''a.txt'', ''B2.txt'', ''b10.txt'']
       = natsorted [''b10.txt'', ''B2.txt'', ''a.txt'', ''b.txt'']"
proof -
  let ?xs = "[''b.txt'', ''a.txt'', ''B2.txt'', ''b10.txt'']"
  let ?ys = "[''b10.txt'', ''B2.txt'', ''a.txt'', ''b.txt'']"
  have m: "mset ?xs = mset ?ys"
    by (simp add: add_mset_commute)
  have "distinct (map natsort_key ?xs)"
    by code_simp
  then have i: "inj_on natsort_key (set ?xs)"
    by (simp only: distinct_map)
  have c: "candidates_loop demo_env [''a.txt'', ''src''] [] = Inr [''a.txt'', ''src/lib/u.py'', ''src/m.py'']"
    by code_simp
  have v: "concat (map (\<lambda>p. (if startswith p ''http'' then [p] else [])
                        @ (if p \<noteq> [] then concat (map (\<lambda>x. natsorted (glob demo_env x)) (braceexpand demo_env p))
                           else [])) [''http://h/x'', ''*.txt''])
      = [''http://h/x'', ''a.txt'', ''B2.txt'', ''b10.txt'', ''b.txt'']"
    by code_simp
  from resolved_order [of demo_env "[''http://h/x'', ''*.txt'']" "[''a.txt'', ''src'']"
      "[''a.txt'', ''src/lib/u.py'', ''src/m.py'']" ?xs ?ys] m i c v
  show ?thesis by simp
qed

subsection \<open>Include and exclude patterns\<close>

lemma filter_loop_single:
  assumes "filter_loop [pattern_regex p] [] candidates queue = Inr q"
  shows "q = queue @ filter (anchored_match p) candidates"
  using assms
proof (induction candidates arbitrary: queue)
  case Nil
  then show ?case by simp
next
  case (Cons c cs)
  have r: "include_regex [pattern_regex p] = ''^'' @ pattern_regex p @ ''$''"
    by (simp add: include_regex_def)
  show ?case
  proof (cases "re_search (''^'' @ pattern_regex p @ ''$'') c")
    case None
    with Cons.prems show ?thesis
      by (simp add: r)
  next
    case (Some b)
    show ?thesis
    proof (cases b)
      case True
      with Some Cons.prems have "filter_loop [pattern_regex p] [] cs (queue @ [c]) = Inr q"
        by (simp add: r)
      from Cons.IH [OF this] Some True show ?thesis
        by (simp add: anchored_match_def)
    next
      case False
      with Some Cons.prems have "filter_loop [pattern_regex p] [] cs queue = Inr q"
        by (simp add: r)
      from Cons.IH [OF this] Some False show ?thesis
        by (simp add: anchored_match_def)
    qed
  qed
qed

text \<open>
  With one include pattern the regular expression of line 137 is \<^verbatim>\<open>^\<close>, the pattern, \<^verbatim>\<open>$\<close>,
  and the filter keeps the candidates that match the pattern anchored at both ends.
\<close>

lemma filter_candidates_single_include:
  assumes "filter_candidates [p] [] candidates = Inr q"
  shows "q = filter (anchored_match p) candidates"
  using filter_loop_single [of p candidates "[]" q] assms
  by (simp add: filter_candidates_def)

text \<open>
  Claim C3 says that a candidate is kept if and only if it matches some include pattern
  anchored at both ends, and then dropped if and only if it matches some exclude pattern
  anchored at both ends. With two or more patterns the expression of lines 137 and 141
  is \<^verbatim>\<open>^p1|p2|...|pn$\<close>, in which \<^verbatim>\<open>^\<close> belongs to the first alternative only and \<^verbatim>\<open>$\<close> to
  the last only. With the include patterns \<^verbatim>\<open>*.c\<close> and \<^verbatim>\<open>*.h\<close> the candidate \<^verbatim>\<open>foo.cpp\<close>
  is kept, although it matches neither pattern at both ends; with the exclude patterns
  \<^verbatim>\<open>a\<close>, \<^verbatim>\<open>b\<close> and \<^verbatim>\<open>c\<close> the candidate \<^verbatim>\<open>xbx\<close> is dropped, although it matches none of them
  at both ends.
\<close>

theorem filter_anchoring_failing_input:
  "include_regex (map pattern_regex [''*.c'', ''*.h'']) = ''^.*'' @ [backslash] @ ''.c|.*'' @ [backslash] @ ''.h$''
   \<and> filter_candidates [''*.c'', ''*.h''] [] [''foo.cpp''] = Inr [''foo.cpp'']
   \<and> \<not> anchored_match ''*.c'' ''foo.cpp''
   \<and> \<not> anchored_match ''*.h'' ''foo.cpp''
   \<and> filter_candidates [] [''a'', ''b'', ''c''] [''xbx''] = Inr []
   \<and> \<not> anchored_match ''a'' ''xbx''
   \<and> \<not> anchored_match ''b'' ''xbx''
   \<and> \<not> anchored_match ''c'' ''xbx''"
  by code_simp

subsection \<open>The compositor\<close>

lemma rightmost_loop_eq:
  "rightmost_loop page i rs left = merge_row left (map (\<lambda>r. page_or_blank page r i) rs)"
  by (induction rs arbitrary: left) simp_all

lemma pages_loop_eq:
  "pages_loop page r0 rs ns out
     = out @ map (\<lambda>i. merge_row (page_or_blank page r0 i) (map (\<lambda>r. page_or_blank page r i) rs)) ns"
  by (induction ns arbitrary: out) (simp_all add: rightmost_loop_eq)

lemma max_of_eq: "max_of m ns = Max (set (m # ns))"
proof (induction ns arbitrary: m)
  case Nil
  show ?case by simp
next
  case (Cons n ns)
  have "max_of m (n # ns) = Max (insert (max m n) (set ns))"
    using Cons.IH [of "max m n"] by simp
  also have "\<dots> = Max (insert m (insert n (set ns)))"
  proof (cases "set ns = {}")
    case True
    then show ?thesis by (simp add: max.commute)
  next
    case False
    then show ?thesis
      by (simp add: Max_insert max.assoc)
  qed
  finally show ?case by simp
qed

lemma filler_eq:
  "filler p0 = \<lparr>mediaBox = \<lparr>llx = 0, lly = 0, urx = urx (mediaBox p0), ury = ury (mediaBox p0)\<rparr>,
                 streams = [([], 0, 0)]\<rparr>"
  by (simp add: filler_def blank_def pdf_of_page_def)

lemma concatenate_result:
  assumes "read_all w inputs = Inr (r0 # rs)" and "r0 \<noteq> []"
  shows "concatenate w (Named output) inputs =
     (Inr (),
      \<lparr>files = ((files w)(Named output \<mapsto>
          PdfFile (map (\<lambda>i. merge_row (page_or_blank (filler (hd r0)) r0 i)
                               (map (\<lambda>r. page_or_blank (filler (hd r0)) r i) rs))
                    [0..<Max (set (map length (r0 # rs)))])))(Temp (next_tmp w) := None),
       fds = fds w - {next_tmp w},
       next_tmp = Suc (next_tmp w)\<rparr>)"
proof -
  obtain p0 ps where r0: "r0 = p0 # ps"
    using assms(2) by (cases r0) auto
  show ?thesis
    using assms(1)
    by (simp add: concatenate_def r0 mkstemp_def write_documents_def PdfFileReader_def Let_def
        pages_loop_eq max_of_eq filler_def blank_def fun_upd_twist)
qed

text \<open>
  Claim C2. When the inputs can be read and the first has a page, the compositor writes
  an output of as many pages as the longest input has. Page \<open>i\<close> of the output is the
  merge, from left to right, of page \<open>i\<close> of each input, with the blank page taking
  the place of an input that has no page \<open>i\<close>. The blank page is empty and its media box
  goes from the origin to the upper right corner of the media box of the first page of
  the first input.
\<close>

theorem concatenate_pages:
  assumes "read_all w inputs = Inr (r0 # rs)" and "r0 \<noteq> []"
  shows "\<exists>w' out. concatenate w (Named output) inputs = (Inr (), w')
        \<and> files w' (Named output) = Some (PdfFile out)
        \<and> length out = Max (set (map length (r0 # rs)))
        \<and> (\<forall>i < length out.
              out ! i = merge_row (page_or_blank (filler (hd r0)) r0 i)
                          (map (\<lambda>r. page_or_blank (filler (hd r0)) r i) rs))
        \<and> (\<forall>r \<in> set (r0 # rs). \<forall>i.
              page_or_blank (filler (hd r0)) r i = (if i < length r then r ! i else filler (hd r0)))
        \<and> mediaBox (filler (hd r0))
            = \<lparr>llx = 0, lly = 0, urx = urx (mediaBox (hd r0)), ury = ury (mediaBox (hd r0))\<rparr>
        \<and> streams (filler (hd r0)) = [([], 0, 0)]"
proof -
  let ?n = "Max (set (map length (r0 # rs)))"
  let ?row = "\<lambda>i. merge_row (page_or_blank (filler (hd r0)) r0 i)
                      (map (\<lambda>r. page_or_blank (filler (hd r0)) r i) rs)"
  let ?out = "map ?row [0..<?n]"
  let ?w = "\<lparr>files = ((files w)(Named output \<mapsto> PdfFile ?out))(Temp (next_tmp w) := None),
            fds = fds w - {next_tmp w}, next_tmp = Suc (next_tmp w)\<rparr>"
  have 1: "concatenate w (Named output) inputs = (Inr (), ?w)"
    by (rule concatenate_result [OF assms])
  have 2: "files ?w (Named output) = Some (PdfFile ?out)"
    by simp
  have 3: "length ?out = ?n"
    by simp
  have 4: "\<forall>i < length ?out. ?out ! i = ?row i"
    by simp
  have 5: "\<forall>r \<in> set (r0 # rs). \<forall>i.
      page_or_blank (filler (hd r0)) r i = (if i < length r then r ! i else filler (hd r0))"
    by (simp add: page_or_blank_def)
  have 6: "mediaBox (filler (hd r0))
      = \<lparr>llx = 0, lly = 0, urx = urx (mediaBox (hd r0)), ury = ury (mediaBox (hd r0))\<rparr>"
    and 7: "streams (filler (hd r0)) = [([], 0, 0)]"
    by (simp_all add: filler_eq)
  from 1 2 3 4 5 6 7 show ?thesis
    by blast
qed

theorem concatenate_pages_witness:
  "read_all demo_staged [Temp 0, Temp 1]
     = Inr [[pdf_of_page (demo_page ''a'')], [pdf_of_page (demo_page ''b1''), pdf_of_page (demo_page ''b2'')]]
   \<and> [pdf_of_page (demo_page ''a'')] \<noteq> []
   \<and> (\<exists>w' out. concatenate demo_staged (Named ''out.pdf'') [Temp 0, Temp 1] = (Inr (), w')
         \<and> files w' (Named ''out.pdf'') = Some (PdfFile out)
         \<and> length out = 2
         \<and> out ! 1 = \<lparr>mediaBox = \<lparr>llx = 0, lly = 0, urx = 1224, ury = 792\<rparr>,
                       streams = [([], 0, 0), (''b2'', 612, 0)]\<rparr>)"
proof -
  let ?A = "[pdf_of_page (demo_page ''a'')]"
  let ?B = "[pdf_of_page (demo_page ''b1''), pdf_of_page (demo_page ''b2'')]"
  have r: "read_all demo_staged [Temp 0, Temp 1] = Inr [?A, ?B]"
    by (simp add: demo_staged_def PdfFileReader_def)
  have n: "?A \<noteq> []"
    by simp
  from concatenate_pages [OF r n, of "''out.pdf''"]
  obtain w' out where c: "concatenate demo_staged (Named ''out.pdf'') [Temp 0, Temp 1] = (Inr (), w')"
    and f: "files w' (Named ''out.pdf'') = Some (PdfFile out)"
    and l: "length out = Max (set (map length [?A, ?B]))"
    and o: "\<forall>i < length out.
              out ! i = merge_row (page_or_blank (filler (hd ?A)) ?A i)
                          (map (\<lambda>r. page_or_blank (filler (hd ?A)) r i) [?B])"
    by blast
  have l2: "length out = 2"
    using l by simp
  then have "out ! 1 = merge_row (page_or_blank (filler (hd ?A)) ?A 1)
                          (map (\<lambda>r. page_or_blank (filler (hd ?A)) r 1) [?B])"
    using o by simp
  also have "\<dots> = \<lparr>mediaBox = \<lparr>llx = 0, lly = 0, urx = 1224, ury = 792\<rparr>,
                       streams = [([], 0, 0), (''b2'', 612, 0)]\<rparr>"
    by (simp add: page_or_blank_def filler_eq pdf_of_page_def demo_page_def mergeTranslatedPage_def)
  finally show ?thesis
    using r n c f l2 by blast
qed

subsection \<open>Widths\<close>

lemma written_at_origin: "at_origin (pdf_of_page p) \<longleftrightarrow> 0 \<le> width p \<and> 0 \<le> height p"
  by (simp add: at_origin_def pdf_of_page_def)

lemma staged_at_origin:
  assumes "files w p = Some (PdfFile (map pdf_of_page ps))"
    and "\<forall>q \<in> set ps. 0 \<le> width q \<and> 0 \<le> height q"
    and "PdfFileReader w p = Inr r"
  shows "\<forall>x \<in> set r. at_origin x"
  using assms by (auto simp: PdfFileReader_def written_at_origin)





subsection \<open>Temporary files\<close>

lemma keeps_refl: "keeps w w"
  by (simp add: keeps_def)

lemma keeps_trans: "keeps w1 w2 \<Longrightarrow> keeps w2 w3 \<Longrightarrow> keeps w1 w3"
  by (auto simp: keeps_def)

lemma mkstemp_keeps:
  "keeps w (snd (mkstemp w))"
  "files (snd (mkstemp w)) (Temp (next_tmp w)) \<noteq> None"
  "next_tmp w \<in> fds (snd (mkstemp w))"
  "next_tmp (snd (mkstemp w)) = Suc (next_tmp w)"
  "fst (mkstemp w) = (next_tmp w, Temp (next_tmp w))"
  by (simp_all add: mkstemp_def keeps_def Let_def)

lemma write_documents_keeps:
  "keeps w (snd (write_documents w p ds))"
  "files w q \<noteq> None \<Longrightarrow> files (snd (write_documents w p ds)) q \<noteq> None"
  "fds (snd (write_documents w p ds)) = fds w"
  "next_tmp (snd (write_documents w p ds)) = next_tmp w"
  by (simp_all add: write_documents_def keeps_def Let_def)

lemma stage_keeps:
  assumes "stage e w queue k margin browser no_color no_path psize = (r, w1)"
  shows "keeps w w1" and "files w1 (Temp (next_tmp w)) \<noteq> None"
    and "next_tmp w \<in> fds w1" and "next_tmp w1 = Suc (next_tmp w)"
proof -
  let ?m = "snd (mkstemp w)"
  have "w1 = ?m \<or> (\<exists>d. w1 = snd (write_documents ?m (Temp (next_tmp w)) [d]))"
    using assms
    by (auto simp: stage_def mkstemp_keeps(5) split_beta Let_def
        split: if_splits sum.splits option.splits)
  then show "keeps w w1" and "files w1 (Temp (next_tmp w)) \<noteq> None"
    and "next_tmp w \<in> fds w1" and "next_tmp w1 = Suc (next_tmp w)"
    using mkstemp_keeps [of w] write_documents_keeps [of ?m]
    by (auto intro: keeps_trans)
qed

lemma concatenate_keeps:
  assumes "concatenate w (Named output) inputs = (r, w')"
  shows "keeps w w'"
  using assms
  by (auto simp: concatenate_def mkstemp_def write_documents_def keeps_def Let_def
      split: sum.splits list.splits if_splits)

text \<open>
  Whatever the inputs are and however the run ends, the first temporary file that the
  side-by-side path makes exists at the end of the run, and its descriptor is open.
\<close>

lemma side_by_side_keeps_first:
  assumes "side_by_side e w output queue browser no_color no_path psize = (x, w')"
  shows "files w' (Temp (next_tmp w)) \<noteq> None \<and> next_tmp w \<in> fds w'"
proof -
  obtain r0 w1 where s0: "stage e w queue 0 ''.5in .25in .5in .5in'' browser no_color no_path psize = (r0, w1)"
    by (cases "stage e w queue 0 ''.5in .25in .5in .5in'' browser no_color no_path psize")
  note k0 = stage_keeps [OF s0]
  have first: "files w1 (Temp (next_tmp w)) \<noteq> None \<and> next_tmp w \<in> fds w1 \<and> next_tmp w < next_tmp w1"
    using k0 by simp
  have fin: "files v (Temp (next_tmp w)) \<noteq> None \<and> next_tmp w \<in> fds v" if "keeps w1 v" for v
    using that first by (auto simp: keeps_def)
  have "keeps w1 w'"
  proof (cases r0)
    case (Inl a)
    with assms s0 show ?thesis
      by (simp add: side_by_side_def keeps_refl)
  next
    case (Inr t0)
    obtain r1 w2 where s1: "stage e w1 queue 1
        (if length queue = 2 then ''.5in .5in .5in .25in'' else ''.5in .375in .5in .375in'')
        browser no_color no_path psize = (r1, w2)"
      by (cases "stage e w1 queue 1
        (if length queue = 2 then ''.5in .5in .5in .25in'' else ''.5in .375in .5in .375in'')
        browser no_color no_path psize")
    note k1 = stage_keeps(1) [OF s1]
    show ?thesis
    proof (cases r1)
      case (Inl a)
      with assms s0 s1 Inr k1 show ?thesis
        by (simp add: side_by_side_def)
    next
      case r1: (Inr t1)
      obtain r2 w3 where s2: "stage e w2 queue 2 ''.5in .5in .5in .25in''
          browser no_color no_path psize = (r2, w3)"
        by (cases "stage e w2 queue 2 ''.5in .5in .5in .25in'' browser no_color no_path psize")
      note k2 = stage_keeps(1) [OF s2]
      have k13: "keeps w1 w3"
        using k1 k2 by (rule keeps_trans)
      obtain ts wc where tw: "(if length queue = 3
            then (case stage e w2 queue 2 ''.5in .5in .5in .25in'' browser no_color no_path psize of
                    (Inl x, w3) \<Rightarrow> (Inl x, w3)
                  | (Inr t2, w3) \<Rightarrow> (Inr [t0, t1, t2], w3))
            else (Inr [t0, t1], w2)) = (ts, wc)"
        by (cases "(if length queue = 3
            then (case stage e w2 queue 2 ''.5in .5in .5in .25in'' browser no_color no_path psize of
                    (Inl x, w3) \<Rightarrow> (Inl x, w3)
                  | (Inr t2, w3) \<Rightarrow> (Inr [t0, t1, t2], w3))
            else (Inr [t0, t1], w2))")
      have kc: "keeps w1 wc"
        using tw k1 k13 s2 by (auto split: if_splits sum.splits)
      show ?thesis
      proof (cases ts)
        case (Inl a)
        with assms s0 s1 Inr r1 tw kc show ?thesis
          by (simp add: side_by_side_def)
      next
        case ts: (Inr temps)
        obtain rc w4 where c: "concatenate wc (Named output) (map snd temps) = (rc, w4)"
          by (cases "concatenate wc (Named output) (map snd temps)")
        have "keeps w1 w4"
          using kc concatenate_keeps [OF c] by (rule keeps_trans)
        moreover have "w' = w4"
          using assms s0 s1 Inr r1 tw ts c
          by (simp add: side_by_side_def split: sum.splits)
        ultimately show ?thesis by simp
      qed
    qed
  qed
  then show ?thesis
    by (rule fin)
qed

text \<open>
  Claim C1 says that the temporary files of a side-by-side run are gone at the end of
  the run, whether it succeeds or fails. In the run on \<open>a.txt\<close> and \<open>long.txt\<close>, which
  succeeds, the two staged files are still there at \<^verbatim>\<open>sys.exit(0)\<close> and their descriptors
  are still open; only the file of the blank page, which \<^verbatim>\<open>concatenate\<close> removes itself,
  is gone. In the run on \<open>a.txt\<close> and \<open>bin.dat\<close>, which ends with \<^verbatim>\<open>cancel(1)\<close>, both
  temporary files are still there as well.
\<close>

theorem temporary_files_left_behind:
  "fst (side_by_side demo_env demo_world ''out.pdf'' [''a.txt'', ''long.txt'']
          False False False ''396px 612px'') = SystemExit 0
   \<and> files (snd (side_by_side demo_env demo_world ''out.pdf'' [''a.txt'', ''long.txt'']
          False False False ''396px 612px'')) (Temp 0) \<noteq> None
   \<and> files (snd (side_by_side demo_env demo_world ''out.pdf'' [''a.txt'', ''long.txt'']
          False False False ''396px 612px'')) (Temp 1) \<noteq> None
   \<and> files (snd (side_by_side demo_env demo_world ''out.pdf'' [''a.txt'', ''long.txt'']
          False False False ''396px 612px'')) (Temp 2) = None
   \<and> fds (snd (side_by_side demo_env demo_world ''out.pdf'' [''a.txt'', ''long.txt'']
          False False False ''396px 612px'')) = {0, 1}
   \<and> fst (side_by_side demo_env demo_world ''out.pdf'' [''a.txt'', ''bin.dat'']
          False False False ''396px 612px'') = SystemExit 1
   \<and> files (snd (side_by_side demo_env demo_world ''out.pdf'' [''a.txt'', ''bin.dat'']
          False False False ''396px 612px'')) (Temp 0) \<noteq> None
   \<and> files (snd (side_by_side demo_env demo_world ''out.pdf'' [''a.txt'', ''bin.dat'']
          False False False ''396px 612px'')) (Temp 1) \<noteq> None"
  by code_simp

end
